theory Spec2Isabelle
  imports Main
begin

section \<open>Election records\<close>

text \<open>
  \<^verbatim>\<open>election.py\<close> imports the class \<^verbatim>\<open>State\<close> from a module \<^verbatim>\<open>state\<close> that is
  not part of the sources at hand. The record and its methods below follow the data model
  of the specification (StateRecord): a name, two vote counts and an electoral weight.
  Python integers are unbounded, hence \<open>int\<close>.
\<close>

record State =
  name :: string
  dem :: int
  rep :: int
  ec :: int

definition get_name :: "State \<Rightarrow> string" where
  \<comment> \<open>Modelled from the spec: the accessor of \<open>name\<close> of the missing class State.\<close>
  "get_name s = name s"

definition get_ecvotes :: "State \<Rightarrow> int" where
  \<comment> \<open>Modelled from the spec: the accessor of \<open>electoral_weight\<close> of the missing class State.\<close>
  "get_ecvotes s = ec s"

definition get_margin :: "State \<Rightarrow> int" where
  \<comment> \<open>Modelled from the spec: the method get_margin of the missing class State,
      \<open>margin = |votes_for_A - votes_for_B|\<close>.\<close>
  "get_margin s = \<bar>dem s - rep s\<bar>"

definition get_winner :: "State \<Rightarrow> string" where
  \<comment> \<open>Modelled from the spec: the method get_winner of the missing class State, the side
      with strictly more votes. The spec leaves an exact tie open; \<open>election_winner\<close> only
      tests the result against \<open>''dem''\<close>, so a tie is given to \<open>''rep''\<close> here.\<close>
  "get_winner s = (if dem s > rep s then ''dem'' else ''rep'')"

definition add_losing_candidate_voters :: "State \<Rightarrow> int \<Rightarrow> State" where
  \<comment> \<open>Modelled from the spec: the method add_losing_candidate_voters of the missing class
      State; the votes of the local loser grow by the donated amount.\<close>
  "add_losing_candidate_voters s v =
     (if get_winner s = ''dem'' then s\<lparr>rep := rep s + v\<rparr> else s\<lparr>dem := dem s + v\<rparr>)"

definition subtract_winning_candidate_voters :: "State \<Rightarrow> int \<Rightarrow> State" where
  \<comment> \<open>Modelled from the spec: the method subtract_winning_candidate_voters of the missing
      class State; the votes of the local winner shrink by the donated amount.\<close>
  "subtract_winning_candidate_voters s v =
     (if get_winner s = ''dem'' then s\<lparr>dem := dem s - v\<rparr> else s\<lparr>rep := rep s - v\<rparr>)"

text \<open>
  Two records are equal when their four fields are (HOL equality). This is the reading of
  \<^verbatim>\<open>==\<close> and of \<^verbatim>\<open>in\<close> on records wherever the pure solvers compare them; the planner,
  which mutates records, works on references (see below).
\<close>

section \<open>The election model\<close>

text \<open>
  \<^verbatim>\<open>election_winner\<close> (lines 24-45): one pass over the records that accumulates the two
  electoral sums, then a strict comparison. The source raises nowhere in this function.
\<close>

fun tally :: "State list \<Rightarrow> int \<times> int \<Rightarrow> int \<times> int" where
  "tally [] (dem_votes, rep_votes) = (dem_votes, rep_votes)"
| "tally (state # election) (dem_votes, rep_votes) =
     (if get_winner state = ''dem''
      then tally election (dem_votes + get_ecvotes state, rep_votes)
      else tally election (dem_votes, rep_votes + get_ecvotes state))"

definition election_winner :: "State list \<Rightarrow> string \<times> string" where
  "election_winner election =
     (case tally election (0, 0) of
        (dem_votes, rep_votes) \<Rightarrow>
          if dem_votes > rep_votes then (''dem'', ''rep'') else (''rep'', ''dem''))"

text \<open>
  The errors a call can end in. \<open>ValueError\<close> is raised by \<^verbatim>\<open>get_binary_representation\<close>;
  \<open>DataError\<close> is an error kind of the specification that the source has no counterpart
  of. \<open>election_winner_outcome\<close> presents the call as a result that is either an error
  or the returned pair, so that "fails with DataError" can be stated about it.
\<close>

datatype error = DataError | ValueError

definition election_winner_outcome :: "State list \<Rightarrow> error + string \<times> string" where
  "election_winner_outcome election = Inr (election_winner election)"

definition total_ec :: "State list \<Rightarrow> int" where
  \<comment> \<open>the sum of \<^verbatim>\<open>get_ecvotes()\<close> over a list of records\<close>
  "total_ec xs = sum_list (map get_ecvotes xs)"

definition total_voters_required :: "State list \<Rightarrow> int" where
  \<comment> \<open>\<^verbatim>\<open>sum([state.get_margin()+1 for state in xs])\<close>\<close>
  "total_voters_required xs = sum_list (map (\<lambda>state. get_margin state + 1) xs)"

section \<open>The subset enumerator\<close>

text \<open>
  \<^verbatim>\<open>get_binary_representation\<close> (lines 102-121): the while loop that builds the digits,
  the length check that raises ValueError, and the padding with zeros.
\<close>

fun binary_digits :: "nat \<Rightarrow> string \<Rightarrow> string" where
  "binary_digits n result =
     (if n > 0
      then binary_digits (n div 2) ((if n mod 2 = 0 then ''0'' else ''1'') @ result)
      else result)"

definition get_binary_representation :: "nat \<Rightarrow> nat \<Rightarrow> error + string" where
  "get_binary_representation n num_digits =
     (let result = binary_digits n ''''
      in if length result > num_digits then Inl ValueError
         else Inr (replicate (num_digits - length result) CHR ''0'' @ result))"

text \<open>
  \<^verbatim>\<open>combinations\<close> (lines 123-131): for every \<open>i\<close> below \<open>2 ^ len(L)\<close> the subset of
  the items whose digit is 1. The digit string has exactly \<open>len(L)\<close> characters when no
  error was raised, so both index reads are in range.
\<close>

definition subset_of :: "'a list \<Rightarrow> string \<Rightarrow> 'a list" where
  "subset_of L binStr = map (\<lambda>j. L ! j) (filter (\<lambda>j. binStr ! j = CHR ''1'') [0..<length L])"

fun powerset_from :: "'a list \<Rightarrow> nat list \<Rightarrow> error + 'a list list" where
  "powerset_from L [] = Inr []"
| "powerset_from L (i # is) =
     (case get_binary_representation i (length L) of
        Inl e \<Rightarrow> Inl e
      | Inr binStr \<Rightarrow>
          (case powerset_from L is of
             Inl e \<Rightarrow> Inl e
           | Inr powerset \<Rightarrow> Inr (subset_of L binStr # powerset)))"

definition combinations :: "'a list \<Rightarrow> error + 'a list list" where
  "combinations L = powerset_from L [0..<2 ^ length L]"

section \<open>The brute-force solver\<close>

text \<open>
  \<^verbatim>\<open>brute_force_swing_states\<close> (lines 133-162). The loop state is
  \<open>(best_combo, min_voters)\<close>, \<open>min_voters\<close> being \<open>None\<close> until a feasible
  combination was seen. The cost the loop accumulates is \<^verbatim>\<open>state.get_margin()\<close>.
\<close>

fun best_of ::
  "int \<Rightarrow> State list list \<Rightarrow> State list \<times> int option \<Rightarrow> State list \<times> int option" where
  "best_of ec_votes [] (best_combo, min_voters) = (best_combo, min_voters)"
| "best_of ec_votes (combo # combos) (best_combo, min_voters) =
     (let flipped_votes = sum_list (map get_ecvotes combo);
          moved_voters = sum_list (map get_margin combo)
      in if flipped_votes \<ge> ec_votes
            \<and> (case min_voters of None \<Rightarrow> True | Some least \<Rightarrow> moved_voters < least)
         then best_of ec_votes combos (combo, Some moved_voters)
         else best_of ec_votes combos (best_combo, min_voters))"

definition brute_force_swing_states :: "State list \<Rightarrow> int \<Rightarrow> error + State list" where
  "brute_force_swing_states won_states ec_votes =
     (case combinations won_states of
        Inl e \<Rightarrow> Inl e
      | Inr possible_move_combinations \<Rightarrow>
          Inr (fst (best_of ec_votes possible_move_combinations ([], None))))"

section \<open>The weight-bounded selector\<close>

text \<open>
  \<^verbatim>\<open>access_memo\<close> (lines 165-185) keeps its dictionary in a default argument, so one
  dictionary lives as long as the process and is shared by all calls. The model passes
  it explicitly: every function takes the memo and returns the memo it leaves behind.
  A lookup is a call with \<open>solution = None\<close>, a store a call with a list.
\<close>

type_synonym memo = "nat \<times> int \<Rightarrow> State list option"

definition access_memo ::
  "nat \<times> int \<Rightarrow> State list option \<Rightarrow> memo \<Rightarrow> State list option \<times> memo" where
  "access_memo key_tuple solution memo =
     (if memo key_tuple \<noteq> None \<and> solution = None then (memo key_tuple, memo)
      else if memo key_tuple = None \<and> solution = None then (None, memo)
      else (None, memo(key_tuple := solution)))"

text \<open>
  \<^verbatim>\<open>move_max_voters\<close> (lines 187-237). The memo is looked up first, under the key
  \<open>(len(winner_states), ec_votes)\<close>; then the base case, the case of a state too heavy
  for the bound, and the choice between taking the first state and leaving it. The chosen
  state is appended behind the solution of the rest. Each branch ends in the store
  \<^verbatim>\<open>access_memo(key, list(solution))\<close>.
\<close>

fun move_max_voters :: "State list \<Rightarrow> int \<Rightarrow> memo \<Rightarrow> State list \<times> memo" where
  "move_max_voters [] ec_votes memo =
     (case fst (access_memo (0, ec_votes) None memo) of
        Some cached \<Rightarrow> (cached, snd (access_memo (0, ec_votes) (Some cached) memo))
      | None \<Rightarrow> ([], snd (access_memo (0, ec_votes) (Some []) memo)))"
| "move_max_voters (next_state # rest) ec_votes memo =
     (let key = (length (next_state # rest), ec_votes) in
      case fst (access_memo key None memo) of
        Some cached \<Rightarrow> (cached, snd (access_memo key (Some cached) memo))
      | None \<Rightarrow>
          if ec_votes = 0 then ([], snd (access_memo key (Some []) memo))
          else if get_ecvotes next_state > ec_votes then
            (case move_max_voters rest ec_votes memo of
               (solution, memo1) \<Rightarrow> (solution, snd (access_memo key (Some solution) memo1)))
          else
            (let new_weight_lim = ec_votes - get_ecvotes next_state in
             case move_max_voters rest new_weight_lim memo of
               (with_state, memo1) \<Rightarrow>
                 (let val = total_voters_required with_state + (get_margin next_state + 1) in
                  case move_max_voters rest ec_votes memo1 of
                    (no_state, memo2) \<Rightarrow>
                      (let stateless_val = total_voters_required no_state;
                           solution = (if val > stateless_val then with_state @ [next_state]
                                       else no_state)
                       in (solution, snd (access_memo key (Some solution) memo2))))))"

text \<open>
  \<^verbatim>\<open>move_min_voters\<close> (lines 242-270): the states left out of the selection for the
  bound \<open>total - ec_votes_needed\<close>. No operation of the model can raise the TypeError
  the source catches, so the handler has no branch here.
\<close>

definition move_min_voters :: "State list \<Rightarrow> int \<Rightarrow> memo \<Rightarrow> State list \<times> memo" where
  "move_min_voters won_states ec_votes_needed memo =
     (let total_votes_won = total_ec won_states;
          max_ec_votes = total_votes_won - ec_votes_needed
      in case move_max_voters won_states max_ec_votes memo of
           (non_swing_states, memo') \<Rightarrow>
             (filter (\<lambda>state. state \<notin> set non_swing_states) won_states, memo'))"

text \<open>
  The recurrence of \<open>move_max_voters\<close> with the memo taken out, used to reason about the
  memoised function: \<open>memo_ok L m\<close> says that every entry of \<open>m\<close> under the length of a
  suffix of \<open>L\<close> holds what the recurrence gives for that suffix.
\<close>

fun max_voters_rec :: "State list \<Rightarrow> int \<Rightarrow> State list" where
  "max_voters_rec [] b = []"
| "max_voters_rec (s # rest) b =
     (if b = 0 then []
      else if get_ecvotes s > b then max_voters_rec rest b
      else (let with_state = max_voters_rec rest (b - get_ecvotes s);
                no_state = max_voters_rec rest b
            in if total_voters_required with_state + (get_margin s + 1)
                    > total_voters_required no_state
               then with_state @ [s] else no_state))"

definition memo_ok :: "State list \<Rightarrow> memo \<Rightarrow> bool" where
  "memo_ok L m =
     (\<forall>k b sol. m (length (drop k L), b) = Some sol \<longrightarrow> sol = max_voters_rec (drop k L) b)"

section \<open>The voter reallocation planner\<close>

text \<open>
  \<^verbatim>\<open>relocate_voters\<close> (lines 274-340) mutates the records it is given, and the swing
  states it is handed are normally the very objects of the election list. Records are
  therefore kept in a store: an address stands for a Python object, the heap maps each
  address to the record's current fields, and the lists the planner works on are lists of
  addresses.
\<close>

type_synonym addr = nat
type_synonym heap = "addr \<Rightarrow> State"
type_synonym flip_map = "((string \<times> string) \<times> int) list"

text \<open>\<^verbatim>\<open>d[k] = v\<close> on an insertion-ordered dictionary.\<close>

fun dict_set :: "('k \<times> 'v) list \<Rightarrow> 'k \<Rightarrow> 'v \<Rightarrow> ('k \<times> 'v) list" where
  "dict_set [] k v = [(k, v)]"
| "dict_set ((k', v') # d) k v = (if k' = k then (k, v) # d else (k', v') # dict_set d k v)"

text \<open>\<^verbatim>\<open>state in xs\<close> on objects: the same object, or one with equal fields.\<close>

definition state_in :: "heap \<Rightarrow> addr \<Rightarrow> addr list \<Rightarrow> bool" where
  "state_in h a xs = list_ex (\<lambda>b. b = a \<or> h b = h a) xs"

text \<open>\<^verbatim>\<open>winner_states\<close> (lines 48-63), on the objects of the election list.\<close>

definition winner_states :: "heap \<Rightarrow> addr list \<Rightarrow> addr list" where
  "winner_states h election =
     (let winner = fst (election_winner (map h election))
      in filter (\<lambda>state. get_winner (h state) = winner) election)"

record planner =
  heap :: heap
  total_moved :: int
  flip_map :: flip_map
  ec_gain :: int

text \<open>
  One donation (lines 316-331): the two branches that move voters from the donor at index
  \<open>i\<close>, whose cached margin is \<open>l_margins[i]\<close>, to the swing state. The result is
  the new cached margin, the planner state and the new \<open>voters_needed\<close>. The divisor of
  \<^verbatim>\<open>%\<close> is \<open>l_margins[i] - 1\<close>, which is not 0 here because the branch
  \<open>l_margins[i] == 1\<close> was taken before; on integers HOL's \<open>mod\<close> is Python's \<^verbatim>\<open>%\<close>.
\<close>

definition donate :: "addr \<Rightarrow> addr \<Rightarrow> int \<Rightarrow> planner \<Rightarrow> int \<Rightarrow> int \<times> planner \<times> int" where
  "donate state donor margin p voters_needed =
     (if margin > voters_needed then
        (let h1 = (heap p)(donor := subtract_winning_candidate_voters (heap p donor) voters_needed);
             h2 = h1(state := add_losing_candidate_voters (h1 state) voters_needed);
             moved = 0 + voters_needed
         in (margin - moved,
             p\<lparr>heap := h2, total_moved := total_moved p + moved,
               flip_map := dict_set (flip_map p) (get_name (h2 donor), get_name (h2 state)) moved\<rparr>,
             0))
      else
        (let h1 = (heap p)(donor := subtract_winning_candidate_voters (heap p donor) (margin - 1));
             h2 = h1(state := add_losing_candidate_voters (h1 state) (margin - 1));
             moved = 0 + (margin - 1)
         in (1,
             p\<lparr>heap := h2, total_moved := total_moved p + moved,
               flip_map := dict_set (flip_map p) (get_name (h2 donor), get_name (h2 state)) moved\<rparr>,
             voters_needed mod moved)))"

text \<open>
  The inner loop (lines 310-333) over the donors. \<^verbatim>\<open>losing_states\<close> and
  \<^verbatim>\<open>l_margins\<close> are two lists of one length that the loop reads and writes at the same
  index, so the model walks one list of pairs (donor, cached margin) and returns it
  updated. A protected donor and a donor whose cached margin is 1 are passed over; after
  a donation the loop stops as soon as \<open>voters_needed\<close> is 0.
\<close>

fun scan_donors ::
  "addr \<Rightarrow> string list \<Rightarrow> (addr \<times> int) list \<Rightarrow> planner \<Rightarrow> int
     \<Rightarrow> (addr \<times> int) list \<times> planner \<times> int" where
  "scan_donors state pride [] p voters_needed = ([], p, voters_needed)"
| "scan_donors state pride ((donor, margin) # rest) p voters_needed =
     (if get_name (heap p donor) \<in> set pride \<or> margin = 1 then
        (case scan_donors state pride rest p voters_needed of
           (rest', p', needed') \<Rightarrow> ((donor, margin) # rest', p', needed'))
      else
        (case donate state donor margin p voters_needed of
           (margin', p1, needed1) \<Rightarrow>
             if needed1 = 0 then ((donor, margin') # rest, p1, needed1)
             else (case scan_donors state pride rest p1 needed1 of
                     (rest', p', needed') \<Rightarrow> ((donor, margin') # rest', p', needed'))))"

text \<open>
  The outer loop (lines 308-337) over the swing states. The flag is \<open>False\<close> when the
  AssertionError was raised, that is when some swing state's demand was left unmet.
\<close>

fun relocate_loop ::
  "string list \<Rightarrow> addr list \<Rightarrow> (addr \<times> int) list \<Rightarrow> planner
     \<Rightarrow> bool \<times> (addr \<times> int) list \<times> planner" where
  "relocate_loop pride [] donors p = (True, donors, p)"
| "relocate_loop pride (state # swing_states) donors p =
     (case scan_donors state pride donors p (get_margin (heap p state) + 1) of
        (donors', p', voters_needed) \<Rightarrow>
          if voters_needed \<noteq> 0 then (False, donors', p')
          else relocate_loop pride swing_states donors'
                 (p'\<lparr>ec_gain := ec_gain p' + get_ecvotes (heap p' state)\<rparr>))"

text \<open>
  \<open>relocate_run\<close> is the whole body of \<^verbatim>\<open>relocate_voters\<close> with the local variables
  still in view; \<open>relocate_voters\<close> is what the caller sees: the mutated records, and
  the triple or \<open>None\<close>.
\<close>

definition relocate_run ::
  "heap \<Rightarrow> addr list \<Rightarrow> addr list \<Rightarrow> string list \<Rightarrow> bool \<times> (addr \<times> int) list \<times> planner" where
  "relocate_run h election swing_states states_with_pride =
     (let winners_states = winner_states h election;
          losing_states = filter (\<lambda>state. \<not> state_in h state winners_states) election;
          l_margins = map (\<lambda>state. get_margin (h state)) losing_states
      in relocate_loop states_with_pride swing_states (zip losing_states l_margins)
           \<lparr>heap = h, total_moved = 0, flip_map = [], ec_gain = 0\<rparr>)"

definition relocate_voters ::
  "heap \<Rightarrow> addr list \<Rightarrow> addr list \<Rightarrow> string list \<Rightarrow> heap \<times> (int \<times> flip_map \<times> int) option" where
  "relocate_voters h election swing_states states_with_pride =
     (case relocate_run h election swing_states states_with_pride of
        (ok, donors, p) \<Rightarrow>
          (heap p, if ok then Some (total_moved p, flip_map p, ec_gain p) else None))"

definition default_pride :: "string list" where
  "default_pride = [''AL'', ''AZ'', ''CA'', ''TX'']"

definition received :: "flip_map \<Rightarrow> string \<Rightarrow> int" where
  \<comment> \<open>the sum of the transfer amounts whose recipient is the given state\<close>
  "received fm recipient = sum_list (map snd (filter (\<lambda>kv. snd (fst kv) = recipient) fm))"

definition sources :: "flip_map \<Rightarrow> string list" where
  \<comment> \<open>the first components of the keys of the mapping\<close>
  "sources fm = map (\<lambda>kv. fst (fst kv)) fm"


text \<open>
  Notions used to state what one donation does: the amount a donor with cached margin
  \<open>margin\<close> gives when \<open>voters_needed\<close> are asked for, the heap after that amount
  went from the donor to the swing state, and the initial table of donors with their
  cached margins.
\<close>

definition donated :: "int \<Rightarrow> int \<Rightarrow> int" where
  "donated margin voters_needed = (if margin > voters_needed then voters_needed else margin - 1)"

definition moved_heap :: "heap \<Rightarrow> addr \<Rightarrow> addr \<Rightarrow> int \<Rightarrow> heap" where
  "moved_heap h state donor amount =
     (let h1 = h(donor := subtract_winning_candidate_voters (h donor) amount)
      in h1(state := add_losing_candidate_voters (h1 state) amount))"

definition donor_table :: "heap \<Rightarrow> addr list \<Rightarrow> (addr \<times> int) list" where
  "donor_table h election =
     map (\<lambda>a. (a, get_margin (h a)))
       (filter (\<lambda>state. get_winner (h state) \<noteq> fst (election_winner (map h election))) election)"

section \<open>Example elections\<close>

definition blank_record :: State where
  "blank_record = \<lparr>name = ''--'', dem = 0, rep = 0, ec = 0\<rparr>"

definition shortfall_heap :: heap where
  "shortfall_heap = (\<lambda>_. blank_record)
     (0 := \<lparr>name = ''NY'', dem = 20, rep = 12, ec = 10\<rparr>,
      1 := \<lparr>name = ''OH'', dem = 6, rep = 10, ec = 1\<rparr>,
      2 := \<lparr>name = ''FL'', dem = 5, rep = 105, ec = 1\<rparr>)"

definition pride_heap :: heap where
  "pride_heap = (\<lambda>_. blank_record)
     (0 := \<lparr>name = ''CA'', dem = 10, rep = 5, ec = 3\<rparr>,
      1 := \<lparr>name = ''NV'', dem = 3, rep = 20, ec = 1\<rparr>)"

definition protected_heap :: heap where
  "protected_heap = (\<lambda>_. blank_record)
     (0 := \<lparr>name = ''NY'', dem = 20, rep = 12, ec = 10\<rparr>,
      1 := \<lparr>name = ''TX'', dem = 5, rep = 105, ec = 1\<rparr>,
      2 := \<lparr>name = ''FL'', dem = 5, rep = 105, ec = 1\<rparr>)"






section \<open>Properties of the election model\<close>

lemma tally_sums:
  "tally election (d, r) =
     (d + total_ec (filter (\<lambda>s. get_winner s = ''dem'') election),
      r + total_ec (filter (\<lambda>s. get_winner s \<noteq> ''dem'') election))"
  by (induction election arbitrary: d r) (simp_all add: total_ec_def)

text \<open>
  C9, as the code behaves: on the empty record list both sums are 0, the strict comparison
  fails and the pair \<open>(''rep'', ''dem'')\<close> is returned. No error is raised.
\<close>

theorem election_winner_empty_returns:
  "election_winner_outcome [] = Inr (''rep'', ''dem'')"
  by (simp add: election_winner_outcome_def election_winner_def)

text \<open>
  C9, as stated (the call on the empty list fails with DataError), does not hold.
\<close>

theorem election_winner_empty_no_DataError:
  "election_winner_outcome [] \<noteq> Inl DataError"
  by (simp add: election_winner_outcome_def)

text \<open>
  C10: when the electoral weight of the states won locally by \<open>''dem''\<close> is at most the
  weight of all remaining states (an exact tie included), \<open>election_winner\<close> returns
  \<open>(''rep'', ''dem'')\<close>.
\<close>

theorem election_winner_tie_rep:
  assumes "total_ec (filter (\<lambda>s. get_winner s = ''dem'') election)
             \<le> total_ec (filter (\<lambda>s. get_winner s \<noteq> ''dem'') election)"
  shows "election_winner election = (''rep'', ''dem'')"
  using assms by (simp add: election_winner_def tally_sums)

theorem election_winner_tie_rep_witness:
  "total_ec (filter (\<lambda>s. get_winner s = ''dem'')
       [\<lparr>name = ''NY'', dem = 7, rep = 3, ec = 4\<rparr>, \<lparr>name = ''TX'', dem = 2, rep = 9, ec = 4\<rparr>])
     = total_ec (filter (\<lambda>s. get_winner s \<noteq> ''dem'')
       [\<lparr>name = ''NY'', dem = 7, rep = 3, ec = 4\<rparr>, \<lparr>name = ''TX'', dem = 2, rep = 9, ec = 4\<rparr>])
   \<and> election_winner
       [\<lparr>name = ''NY'', dem = 7, rep = 3, ec = 4\<rparr>, \<lparr>name = ''TX'', dem = 2, rep = 9, ec = 4\<rparr>]
     = (''rep'', ''dem'')"
  using election_winner_tie_rep
    [of "[\<lparr>name = ''NY'', dem = 7, rep = 3, ec = 4\<rparr>, \<lparr>name = ''TX'', dem = 2, rep = 9, ec = 4\<rparr>]"]
  by (simp add: total_ec_def get_winner_def get_ecvotes_def)

section \<open>The memo is sound within one problem instance\<close>

lemma access_memo_lookup: "fst (access_memo key None m) = m key"
  by (simp add: access_memo_def)

lemma access_memo_store: "snd (access_memo key (Some sol) m) = m(key \<mapsto> sol)"
  by (simp add: access_memo_def)

declare move_max_voters.simps [simp del]

lemma move_max_voters_hit:
  "m (length ws, b) = Some cached \<Longrightarrow>
     move_max_voters ws b m = (cached, m((length ws, b) \<mapsto> cached))"
  by (cases ws) (simp_all add: move_max_voters.simps access_memo_lookup access_memo_store)

lemma move_max_voters_nil:
  "m (0, b) = None \<Longrightarrow> move_max_voters [] b m = ([], m((0, b) \<mapsto> []))"
  by (simp add: move_max_voters.simps access_memo_lookup access_memo_store)

lemma move_max_voters_zero:
  "m (Suc (length rest), 0) = None \<Longrightarrow>
     move_max_voters (s # rest) 0 m = ([], m((Suc (length rest), 0) \<mapsto> []))"
  by (simp add: move_max_voters.simps access_memo_lookup access_memo_store)

lemma move_max_voters_skip:
  "m (Suc (length rest), b) = None \<Longrightarrow> b \<noteq> 0 \<Longrightarrow> get_ecvotes s > b \<Longrightarrow>
     move_max_voters rest b m = (sol, m1) \<Longrightarrow>
     move_max_voters (s # rest) b m = (sol, m1((Suc (length rest), b) \<mapsto> sol))"
  by (simp add: move_max_voters.simps access_memo_lookup access_memo_store)

lemma move_max_voters_choose:
  "m (Suc (length rest), b) = None \<Longrightarrow> b \<noteq> 0 \<Longrightarrow> \<not> get_ecvotes s > b \<Longrightarrow>
     move_max_voters rest (b - get_ecvotes s) m = (w, m1) \<Longrightarrow>
     move_max_voters rest b m1 = (n, m2) \<Longrightarrow>
     sol = (if total_voters_required w + (get_margin s + 1) > total_voters_required n
            then w @ [s] else n) \<Longrightarrow>
     move_max_voters (s # rest) b m = (sol, m2((Suc (length rest), b) \<mapsto> sol))"
  by (simp add: move_max_voters.simps access_memo_lookup access_memo_store Let_def)

lemma drop_same_length:
  assumes "length (drop k L) = length (drop j L)"
  shows "drop k L = drop j L"
proof (cases "k < length L \<and> j < length L")
  case True
  with assms have "k = j" by simp arith
  then show ?thesis by simp
next
  case False
  then have "length (drop k L) = 0 \<or> length (drop j L) = 0" by auto
  with assms have "length (drop k L) = 0" "length (drop j L) = 0" by auto
  then show ?thesis by simp
qed

lemma memo_ok_empty: "memo_ok L Map.empty"
  by (simp add: memo_ok_def)

lemma memo_ok_hit:
  "memo_ok L m \<Longrightarrow> m (length (drop k L), b) = Some sol \<Longrightarrow> sol = max_voters_rec (drop k L) b"
  by (simp add: memo_ok_def)

lemma memo_ok_store:
  assumes "memo_ok L m"
  shows "memo_ok L (m((length (drop k L), b) \<mapsto> max_voters_rec (drop k L) b))"
  unfolding memo_ok_def
proof (intro allI impI)
  fix j c sol
  assume h: "(m((length (drop k L), b) \<mapsto> max_voters_rec (drop k L) b)) (length (drop j L), c) = Some sol"
  show "sol = max_voters_rec (drop j L) c"
  proof (cases "(length (drop j L), c) = (length (drop k L), b)")
    case True
    then have len: "length (drop j L) = length (drop k L)" and cb: "c = b" by blast+
    have e: "drop j L = drop k L" using len by (rule drop_same_length)
    from h have "Some (max_voters_rec (drop k L) b) = Some sol"
      by (simp only: True fun_upd_same)
    then show ?thesis by (simp only: e cb option.inject)
  next
    case False
    from h have "m (length (drop j L), c) = Some sol"
      by (simp only: fun_upd_other[OF False])
    with assms show ?thesis by (rule memo_ok_hit)
  qed
qed

lemma memo_ok_store_cons:
  assumes "memo_ok L m" and "drop k L = s # rest"
  shows "memo_ok L (m((Suc (length rest), b) \<mapsto> max_voters_rec (s # rest) b))"
proof -
  have "memo_ok L (m((length (drop k L), b) \<mapsto> max_voters_rec (drop k L) b))"
    using assms(1) by (rule memo_ok_store)
  then show ?thesis by (simp only: assms(2) length_Cons)
qed

lemma memo_ok_store_nil:
  assumes "memo_ok L m" and "drop k L = []"
  shows "memo_ok L (m((0, b) \<mapsto> []))"
proof -
  have "memo_ok L (m((length (drop k L), b) \<mapsto> max_voters_rec (drop k L) b))"
    using assms(1) by (rule memo_ok_store)
  then show ?thesis by (simp only: assms(2) list.size(3) max_voters_rec.simps(1))
qed

lemma drop_tail: "drop k L = s # rest \<Longrightarrow> drop (Suc k) L = rest"
proof -
  assume h: "drop k L = s # rest"
  have "drop (Suc k) L = tl (drop k L)" by (simp add: drop_Suc tl_drop)
  with h show ?thesis by simp
qed

lemma move_max_voters_memo:
  "memo_ok L m \<Longrightarrow> drop k L = ws \<Longrightarrow>
     \<exists>m'. move_max_voters ws b m = (max_voters_rec ws b, m') \<and> memo_ok L m'"
proof (induction ws arbitrary: k b m)
  case Nil
  have ok: "memo_ok L (m((0, b) \<mapsto> []))"
    using Nil.prems by (rule memo_ok_store_nil)
  show ?case
  proof (cases "m (0, b)")
    case None
    then have "move_max_voters [] b m = ([], m((0, b) \<mapsto> []))" by (rule move_max_voters_nil)
    with ok show ?thesis by (simp only: max_voters_rec.simps) blast
  next
    case (Some cached)
    have "m (length (drop k L), b) = Some cached" by (simp only: Nil.prems(2) list.size(3) Some)
    with Nil.prems(1) have "cached = max_voters_rec (drop k L) b" by (rule memo_ok_hit)
    then have c: "cached = []" by (simp only: Nil.prems(2) max_voters_rec.simps)
    have "m (length ([]::State list), b) = Some cached" by (simp only: list.size(3) Some)
    then have "move_max_voters [] b m = (cached, m((length ([]::State list), b) \<mapsto> cached))"
      by (rule move_max_voters_hit)
    then have "move_max_voters [] b m = ([], m((0, b) \<mapsto> []))" by (simp only: c list.size(3))
    with ok show ?thesis by (simp only: max_voters_rec.simps) blast
  qed
next
  case (Cons s rest)
  note ws = Cons.prems(2)
  have rest: "drop (Suc k) L = rest" using ws by (rule drop_tail)
  have store: "\<And>m'. memo_ok L m' \<Longrightarrow>
      memo_ok L (m'((Suc (length rest), b) \<mapsto> max_voters_rec (s # rest) b))"
    using ws by (rule memo_ok_store_cons[rotated])
  show ?case
  proof (cases "m (Suc (length rest), b)")
    case (Some cached)
    have "m (length (drop k L), b) = Some cached" by (simp only: ws length_Cons Some)
    with Cons.prems(1) have "cached = max_voters_rec (drop k L) b" by (rule memo_ok_hit)
    then have c: "cached = max_voters_rec (s # rest) b" by (simp only: ws)
    have "m (length (s # rest), b) = Some cached" by (simp only: length_Cons Some)
    then have "move_max_voters (s # rest) b m = (cached, m((length (s # rest), b) \<mapsto> cached))"
      by (rule move_max_voters_hit)
    then have "move_max_voters (s # rest) b m
        = (max_voters_rec (s # rest) b, m((Suc (length rest), b) \<mapsto> max_voters_rec (s # rest) b))"
      by (simp only: c length_Cons)
    with store[OF Cons.prems(1)] show ?thesis by blast
  next
    case None
    show ?thesis
    proof (cases "b = 0")
      case True
      have z: "max_voters_rec (s # rest) 0 = []" by simp
      have "m (Suc (length rest), 0) = None" using None True by simp
      then have "move_max_voters (s # rest) 0 m = ([], m((Suc (length rest), 0) \<mapsto> []))"
        by (rule move_max_voters_zero)
      then have "move_max_voters (s # rest) b m
        = (max_voters_rec (s # rest) b, m((Suc (length rest), b) \<mapsto> max_voters_rec (s # rest) b))"
        by (simp only: True z)
      with store[OF Cons.prems(1)] show ?thesis by blast
    next
      case b0: False
      show ?thesis
      proof (cases "get_ecvotes s > b")
        case True
        have z: "max_voters_rec (s # rest) b = max_voters_rec rest b" using b0 True by simp
        from Cons.IH[OF Cons.prems(1) rest, of b]
        obtain m1 where r: "move_max_voters rest b m = (max_voters_rec rest b, m1)"
          and m1: "memo_ok L m1" by blast
        have "move_max_voters (s # rest) b m
            = (max_voters_rec rest b, m1((Suc (length rest), b) \<mapsto> max_voters_rec rest b))"
          using None b0 True r by (rule move_max_voters_skip)
        then have "move_max_voters (s # rest) b m
          = (max_voters_rec (s # rest) b, m1((Suc (length rest), b) \<mapsto> max_voters_rec (s # rest) b))"
          by (simp only: z)
        with store[OF m1] show ?thesis by blast
      next
        case False
        from Cons.IH[OF Cons.prems(1) rest, of "b - get_ecvotes s"]
        obtain m1 where r1: "move_max_voters rest (b - get_ecvotes s) m
              = (max_voters_rec rest (b - get_ecvotes s), m1)"
          and m1: "memo_ok L m1" by blast
        from Cons.IH[OF m1 rest, of b]
        obtain m2 where r2: "move_max_voters rest b m1 = (max_voters_rec rest b, m2)"
          and m2: "memo_ok L m2" by blast
        have z: "max_voters_rec (s # rest) b =
            (if total_voters_required (max_voters_rec rest (b - get_ecvotes s)) + (get_margin s + 1)
                  > total_voters_required (max_voters_rec rest b)
             then max_voters_rec rest (b - get_ecvotes s) @ [s] else max_voters_rec rest b)"
          using b0 False by (simp add: Let_def)
        have "move_max_voters (s # rest) b m
          = (max_voters_rec (s # rest) b, m2((Suc (length rest), b) \<mapsto> max_voters_rec (s # rest) b))"
          using None b0 False r1 r2 z by (rule move_max_voters_choose)
        with store[OF m2] show ?thesis by blast
      qed
    qed
  qed
qed

lemma move_max_voters_fresh: "fst (move_max_voters ws b Map.empty) = max_voters_rec ws b"
proof -
  have "drop 0 ws = ws" by simp
  with memo_ok_empty[of ws]
  have "\<exists>m'. move_max_voters ws b Map.empty = (max_voters_rec ws b, m') \<and> memo_ok ws m'"
    by (rule move_max_voters_memo)
  then show ?thesis by auto
qed

section \<open>The recurrence solves the bounded selection problem\<close>

lemma total_ec_Cons: "total_ec (s # xs) = get_ecvotes s + total_ec xs"
  by (simp add: total_ec_def)

lemma total_ec_append: "total_ec (xs @ ys) = total_ec xs + total_ec ys"
  by (simp add: total_ec_def)

lemma total_voters_required_Cons:
  "total_voters_required (s # xs) = get_margin s + 1 + total_voters_required xs"
  by (simp add: total_voters_required_def)

lemma total_voters_required_append:
  "total_voters_required (xs @ ys) = total_voters_required xs + total_voters_required ys"
  by (simp add: total_voters_required_def)

lemma max_voters_rec_weight: "0 \<le> b \<Longrightarrow> total_ec (max_voters_rec ws b) \<le> b"
proof (induction ws arbitrary: b)
  case Nil
  then show ?case by (simp add: total_ec_def)
next
  case (Cons s rest)
  show ?case
  proof (cases "b = 0 \<or> get_ecvotes s > b")
    case True
    then show ?thesis using Cons.IH[of b] Cons.prems by (auto simp: total_ec_def)
  next
    case False
    then have "0 \<le> b - get_ecvotes s" by simp
    then have "total_ec (max_voters_rec rest (b - get_ecvotes s)) \<le> b - get_ecvotes s"
      by (rule Cons.IH)
    then have "total_ec (max_voters_rec rest (b - get_ecvotes s) @ [s]) \<le> b"
      by (simp add: total_ec_append total_ec_Cons total_ec_def)
    then show ?thesis using False Cons.IH[OF Cons.prems] by (simp add: Let_def)
  qed
qed

lemma Nil_subseqs: "[] \<in> set (subseqs ws)"
  by (induction ws) (simp_all add: Let_def)

lemma subseqs_Cons_incl: "ys \<in> set (subseqs rest) \<Longrightarrow> s # ys \<in> set (subseqs (s # rest))"
  by (simp add: Let_def)

lemma subseqs_Cons_excl: "ys \<in> set (subseqs rest) \<Longrightarrow> ys \<in> set (subseqs (s # rest))"
  by (simp add: Let_def)

lemma subseqs_Cons_cases:
  "ys \<in> set (subseqs (s # rest)) \<Longrightarrow>
     (\<exists>ys'. ys = s # ys' \<and> ys' \<in> set (subseqs rest)) \<or> ys \<in> set (subseqs rest)"
  by (auto simp: Let_def)

lemma max_voters_rec_subseq: "rev (max_voters_rec ws b) \<in> set (subseqs ws)"
proof (induction ws arbitrary: b)
  case Nil
  then show ?case by simp
next
  case (Cons s rest)
  have a: "rev (max_voters_rec rest c) \<in> set (subseqs (s # rest))" for c
    using Cons.IH[of c] by (rule subseqs_Cons_excl)
  have "s # rev (max_voters_rec rest c) \<in> set (subseqs (s # rest))" for c
    using Cons.IH[of c] by (rule subseqs_Cons_incl)
  then have b: "rev (max_voters_rec rest c @ [s]) \<in> set (subseqs (s # rest))" for c
    by simp
  have n: "rev [] \<in> set (subseqs (s # rest))" using Nil_subseqs[of "s # rest"] by simp
  have "max_voters_rec (s # rest) b = []
      \<or> (\<exists>c. max_voters_rec (s # rest) b = max_voters_rec rest c)
      \<or> (\<exists>c. max_voters_rec (s # rest) b = max_voters_rec rest c @ [s])"
    by (auto simp: Let_def)
  then show ?case
    by (elim disjE exE) (simp_all only: a b n)
qed

lemma total_ec_nonneg: "\<forall>s\<in>set ys. 0 < get_ecvotes s \<Longrightarrow> 0 \<le> total_ec ys"
  by (induction ys) (auto simp: total_ec_def)

lemma total_ec_zero_empty:
  "\<forall>s\<in>set ys. 0 < get_ecvotes s \<Longrightarrow> total_ec ys \<le> 0 \<Longrightarrow> ys = []"
proof (cases ys)
  case Nil
  then show ?thesis by simp
next
  case (Cons y ys')
  assume p: "\<forall>s\<in>set ys. 0 < get_ecvotes s" and z: "total_ec ys \<le> 0"
  from p Cons have "0 < get_ecvotes y" "0 \<le> total_ec ys'" by (auto intro: total_ec_nonneg)
  with z Cons show ?thesis by (simp add: total_ec_Cons)
qed

lemma subseqs_positive:
  "ys \<in> set (subseqs ws) \<Longrightarrow> \<forall>s\<in>set ws. 0 < get_ecvotes s \<Longrightarrow> \<forall>s\<in>set ys. 0 < get_ecvotes s"
  by (induction ws arbitrary: ys) (auto simp: Let_def)

lemma max_voters_rec_include:
  "b \<noteq> 0 \<Longrightarrow> \<not> get_ecvotes s > b \<Longrightarrow>
   total_voters_required (max_voters_rec rest (b - get_ecvotes s)) + (get_margin s + 1)
     \<le> total_voters_required (max_voters_rec (s # rest) b)"
  by (simp add: Let_def total_voters_required_append total_voters_required_Cons total_voters_required_def)

lemma max_voters_rec_exclude:
  "b \<noteq> 0 \<Longrightarrow>
   total_voters_required (max_voters_rec rest b) \<le> total_voters_required (max_voters_rec (s # rest) b)"
  by (simp add: Let_def total_voters_required_append total_voters_required_Cons total_voters_required_def)


lemma max_voters_rec_optimal:
  "\<forall>s\<in>set ws. 0 < get_ecvotes s \<Longrightarrow> 0 \<le> b \<Longrightarrow> ys \<in> set (subseqs ws) \<Longrightarrow>
     total_ec ys \<le> b \<Longrightarrow>
     total_voters_required ys \<le> total_voters_required (max_voters_rec ws b)"
proof (induction ws arbitrary: b ys)
  case Nil
  then show ?case by simp
next
  case (Cons s rest)
  have pos: "\<forall>x\<in>set rest. 0 < get_ecvotes x" and ps: "0 < get_ecvotes s"
    using Cons.prems(1) by simp_all
  have ypos: "\<forall>x\<in>set ys. 0 < get_ecvotes x"
    using Cons.prems(3) Cons.prems(1) by (rule subseqs_positive)
  from subseqs_Cons_cases[OF Cons.prems(3)]
  consider (incl) ys' where "ys = s # ys'" "ys' \<in> set (subseqs rest)"
    | (excl) "ys \<in> set (subseqs rest)"
    by blast
  then show ?case
  proof cases
    case incl
    have "\<forall>x\<in>set ys'. 0 < get_ecvotes x" using incl(2) pos by (rule subseqs_positive)
    then have y'pos: "0 \<le> total_ec ys'" by (rule total_ec_nonneg)
    have w: "get_ecvotes s + total_ec ys' \<le> b"
      using Cons.prems(4) by (simp only: incl(1) total_ec_Cons)
    have fits: "\<not> get_ecvotes s > b" and b0: "b \<noteq> 0" using w y'pos ps by linarith+
    have b1: "0 \<le> b - get_ecvotes s" and b2: "total_ec ys' \<le> b - get_ecvotes s"
      using w y'pos by linarith+
    have "total_voters_required ys' \<le> total_voters_required (max_voters_rec rest (b - get_ecvotes s))"
      using pos b1 incl(2) b2 by (rule Cons.IH)
    moreover have "total_voters_required ys = get_margin s + 1 + total_voters_required ys'"
      by (simp only: incl(1) total_voters_required_Cons)
    ultimately show ?thesis using max_voters_rec_include[OF b0 fits, of rest] by linarith
  next
    case excl
    show ?thesis
    proof (cases "b = 0")
      case True
      have "total_ec ys \<le> 0" using Cons.prems(4) True by simp
      with ypos have "ys = []" by (rule total_ec_zero_empty)
      then show ?thesis using True by simp
    next
      case False
      have "total_voters_required ys \<le> total_voters_required (max_voters_rec rest b)"
        using pos Cons.prems(2) excl Cons.prems(4) by (rule Cons.IH)
      then show ?thesis using max_voters_rec_exclude[OF False, of rest s] by linarith
    qed
  qed
qed


section \<open>Claims about the weight-bounded selector\<close>

text \<open>
  C4: for winner states with positive electoral weights and a bound \<open>b \<ge> 0\<close>,
  \<open>move_max_voters\<close> started on an empty memo returns a selection of the given states
  (read backwards it is a subsequence of the input) whose electoral weight is at most
  \<open>b\<close> and whose value, the sum of \<open>margin + 1\<close>, is at least that of every subset
  within the bound. Where taking the first state and leaving it give equal value, the
  state is left out: the call returns what the call on the rest returns.
\<close>

theorem move_max_voters_optimal:
  assumes "\<forall>s\<in>set ws. 0 < get_ecvotes s" and "0 \<le> b"
  shows "rev (fst (move_max_voters ws b Map.empty)) \<in> set (subseqs ws)
       \<and> total_ec (fst (move_max_voters ws b Map.empty)) \<le> b
       \<and> (\<forall>ys\<in>set (subseqs ws). total_ec ys \<le> b \<longrightarrow>
             total_voters_required ys
               \<le> total_voters_required (fst (move_max_voters ws b Map.empty)))
       \<and> (\<forall>s rest. ws = s # rest \<and> b \<noteq> 0 \<and> get_ecvotes s \<le> b
             \<and> total_voters_required (fst (move_max_voters rest (b - get_ecvotes s) Map.empty))
                   + (get_margin s + 1)
                 = total_voters_required (fst (move_max_voters rest b Map.empty))
             \<longrightarrow> fst (move_max_voters ws b Map.empty) = fst (move_max_voters rest b Map.empty))"
proof (intro conjI ballI impI allI)
  show "rev (fst (move_max_voters ws b Map.empty)) \<in> set (subseqs ws)"
    by (simp only: move_max_voters_fresh max_voters_rec_subseq)
  show "total_ec (fst (move_max_voters ws b Map.empty)) \<le> b"
    using assms(2) by (simp only: move_max_voters_fresh max_voters_rec_weight)
next
  fix ys
  assume "ys \<in> set (subseqs ws)" and "total_ec ys \<le> b"
  with assms
  have "total_voters_required ys \<le> total_voters_required (max_voters_rec ws b)"
    by (rule max_voters_rec_optimal)
  then show "total_voters_required ys
      \<le> total_voters_required (fst (move_max_voters ws b Map.empty))"
    by (simp only: move_max_voters_fresh)
next
  fix s rest
  assume h: "ws = s # rest \<and> b \<noteq> 0 \<and> get_ecvotes s \<le> b
     \<and> total_voters_required (fst (move_max_voters rest (b - get_ecvotes s) Map.empty))
           + (get_margin s + 1)
         = total_voters_required (fst (move_max_voters rest b Map.empty))"
  then have tie: "total_voters_required (max_voters_rec rest (b - get_ecvotes s)) + (get_margin s + 1)
      = total_voters_required (max_voters_rec rest b)"
    by (simp only: move_max_voters_fresh)
  from h have "max_voters_rec (s # rest) b = max_voters_rec rest b"
    using tie by (simp add: Let_def)
  with h show "fst (move_max_voters ws b Map.empty) = fst (move_max_voters rest b Map.empty)"
    by (simp only: move_max_voters_fresh)
qed

lemmas selector_eval = move_max_voters.simps access_memo_def total_voters_required_def
  total_ec_def get_margin_def get_ecvotes_def Let_def

theorem move_max_voters_optimal_witness:
  "0 < get_ecvotes \<lparr>name = ''PA'', dem = 14, rep = 10, ec = 1\<rparr>
   \<and> 0 < get_ecvotes \<lparr>name = ''MI'', dem = 9, rep = 5, ec = 1\<rparr>
   \<and> (0::int) \<le> 1
   \<and> fst (move_max_voters [\<lparr>name = ''PA'', dem = 14, rep = 10, ec = 1\<rparr>,
                             \<lparr>name = ''MI'', dem = 9, rep = 5, ec = 1\<rparr>] 1 Map.empty)
       = [\<lparr>name = ''MI'', dem = 9, rep = 5, ec = 1\<rparr>]
   \<and> total_ec [\<lparr>name = ''MI'', dem = 9, rep = 5, ec = 1\<rparr>] \<le> 1
   \<and> total_voters_required [\<lparr>name = ''PA'', dem = 14, rep = 10, ec = 1\<rparr>]
       \<le> total_voters_required [\<lparr>name = ''MI'', dem = 9, rep = 5, ec = 1\<rparr>]
   \<and> total_voters_required
         (fst (move_max_voters [\<lparr>name = ''MI'', dem = 9, rep = 5, ec = 1\<rparr>]
                 (1 - get_ecvotes \<lparr>name = ''PA'', dem = 14, rep = 10, ec = 1\<rparr>) Map.empty))
         + (get_margin \<lparr>name = ''PA'', dem = 14, rep = 10, ec = 1\<rparr> + 1)
       = total_voters_required
           (fst (move_max_voters [\<lparr>name = ''MI'', dem = 9, rep = 5, ec = 1\<rparr>] 1 Map.empty))"
proof -
  have p: "\<forall>s\<in>set [\<lparr>name = ''PA'', dem = 14, rep = 10, ec = 1\<rparr>,
                     \<lparr>name = ''MI'', dem = 9, rep = 5, ec = 1\<rparr>]. 0 < get_ecvotes s"
    by (simp add: get_ecvotes_def)
  have b: "(0::int) \<le> 1" by simp
  show ?thesis using move_max_voters_optimal[OF p b] by (simp add: selector_eval)
qed

text \<open>
  C8 (the code departs from the claim): the memo outlives the call and its key is only
  (length, bound). After the one-state problem \<open>[IA]\<close> with bound 1 was solved, the
  one-state problem \<open>[WI]\<close> with the same bound is answered from the memo with \<open>[IA]\<close>,
  while the same call on an empty memo returns \<open>[WI]\<close>.
\<close>

theorem move_max_voters_memo_collision:
  "fst (move_max_voters [\<lparr>name = ''WI'', dem = 20, rep = 3, ec = 1\<rparr>] 1
          (snd (move_max_voters [\<lparr>name = ''IA'', dem = 9, rep = 4, ec = 1\<rparr>] 1 Map.empty)))
       = [\<lparr>name = ''IA'', dem = 9, rep = 4, ec = 1\<rparr>]
   \<and> fst (move_max_voters [\<lparr>name = ''WI'', dem = 20, rep = 3, ec = 1\<rparr>] 1 Map.empty)
       = [\<lparr>name = ''WI'', dem = 20, rep = 3, ec = 1\<rparr>]"
  by (simp add: selector_eval)

lemma max_voters_rec_negative:
  "b < 0 \<Longrightarrow> \<forall>s\<in>set ws. 0 \<le> get_ecvotes s \<Longrightarrow> max_voters_rec ws b = []"
  by (induction ws) auto

lemma move_min_voters_infeasible_all:
  assumes "\<forall>s\<in>set ws. 0 \<le> get_ecvotes s" and "total_ec ws < needed"
  shows "fst (move_min_voters ws needed Map.empty) = ws"
proof -
  have "total_ec ws - needed < 0" using assms(2) by simp
  then have "max_voters_rec ws (total_ec ws - needed) = []"
    using assms(1) by (rule max_voters_rec_negative)
  then have "fst (move_max_voters ws (total_ec ws - needed) Map.empty) = []"
    by (simp only: move_max_voters_fresh)
  moreover obtain x m' where e: "move_max_voters ws (total_ec ws - needed) Map.empty = (x, m')"
    by (cases "move_max_voters ws (total_ec ws - needed) Map.empty")
  ultimately have "x = []" by simp
  then show ?thesis by (simp add: move_min_voters_def Let_def e)
qed

text \<open>
  C5 (the code departs from the claim): when more electoral votes are needed than the
  pool holds, the bound handed to the selector is negative, the selector returns the empty
  list, and \<open>move_min_voters\<close> returns every state of the pool, not the empty list.
  \<open>move_min_voters_infeasible_all\<close> shows this for every pool with non-negative weights;
  the theorem evaluates the call on one state of weight 3 with 4 votes needed.
\<close>

theorem move_min_voters_infeasible_full:
  "total_ec [\<lparr>name = ''CO'', dem = 10, rep = 5, ec = 3\<rparr>] < 4
   \<and> fst (move_min_voters [\<lparr>name = ''CO'', dem = 10, rep = 5, ec = 3\<rparr>] 4 Map.empty)
       = [\<lparr>name = ''CO'', dem = 10, rep = 5, ec = 3\<rparr>]"
  by (simp add: move_min_voters_def selector_eval)

section \<open>Claims about the brute-force solver\<close>

text \<open>
  C2 (the code departs from the claim): the loop adds up \<open>margin\<close>, not
  \<open>margin + 1\<close>. With one state of weight 3 and margin 16 and three states of weight 1
  and margin 5 each, and 3 votes needed, the three small states are returned (their
  margins sum to 15, below 16), although they take 18 voters and the large state alone
  meets the threshold with 17.
\<close>

theorem brute_force_not_minimal:
  "brute_force_swing_states
     [\<lparr>name = ''GA'', dem = 30, rep = 14, ec = 3\<rparr>, \<lparr>name = ''NH'', dem = 10, rep = 5, ec = 1\<rparr>,
      \<lparr>name = ''VT'', dem = 11, rep = 6, ec = 1\<rparr>, \<lparr>name = ''ME'', dem = 12, rep = 7, ec = 1\<rparr>] 3
     = Inr [\<lparr>name = ''NH'', dem = 10, rep = 5, ec = 1\<rparr>, \<lparr>name = ''VT'', dem = 11, rep = 6, ec = 1\<rparr>,
            \<lparr>name = ''ME'', dem = 12, rep = 7, ec = 1\<rparr>]
   \<and> total_voters_required
        [\<lparr>name = ''NH'', dem = 10, rep = 5, ec = 1\<rparr>, \<lparr>name = ''VT'', dem = 11, rep = 6, ec = 1\<rparr>,
         \<lparr>name = ''ME'', dem = 12, rep = 7, ec = 1\<rparr>] = 18
   \<and> total_ec [\<lparr>name = ''GA'', dem = 30, rep = 14, ec = 3\<rparr>] = 3
   \<and> total_voters_required [\<lparr>name = ''GA'', dem = 30, rep = 14, ec = 3\<rparr>] = 17"
  by code_simp

text \<open>
  C3 (the code departs from the claim, by the defect of C2): on the same input the
  brute-force result takes 18 voters and the result of \<open>move_min_voters\<close> takes 17.
\<close>

theorem brute_force_knapsack_disagree:
  "map_sum id total_voters_required
     (brute_force_swing_states
        [\<lparr>name = ''GA'', dem = 30, rep = 14, ec = 3\<rparr>, \<lparr>name = ''NH'', dem = 10, rep = 5, ec = 1\<rparr>,
         \<lparr>name = ''VT'', dem = 11, rep = 6, ec = 1\<rparr>, \<lparr>name = ''ME'', dem = 12, rep = 7, ec = 1\<rparr>] 3)
     = Inr 18
   \<and> total_voters_required
       (fst (move_min_voters
          [\<lparr>name = ''GA'', dem = 30, rep = 14, ec = 3\<rparr>, \<lparr>name = ''NH'', dem = 10, rep = 5, ec = 1\<rparr>,
           \<lparr>name = ''VT'', dem = 11, rep = 6, ec = 1\<rparr>, \<lparr>name = ''ME'', dem = 12, rep = 7, ec = 1\<rparr>]
          3 Map.empty))
     = 17"
  by code_simp

section \<open>Invariants of the planner\<close>

text \<open>No operation on a record changes its name.\<close>

lemma get_name_add [simp]: "get_name (add_losing_candidate_voters s v) = get_name s"
  by (simp add: add_losing_candidate_voters_def get_name_def)

lemma get_name_subtract [simp]: "get_name (subtract_winning_candidate_voters s v) = get_name s"
  by (simp add: subtract_winning_candidate_voters_def get_name_def)

text \<open>
  Both branches of a donation move \<open>donated margin voters_needed\<close> voters; they differ
  only in the demand they leave.
\<close>

lemma donate_eq:
  "donate state donor margin p needed =
     (margin - donated margin needed,
      p\<lparr>heap := moved_heap (heap p) state donor (donated margin needed),
        total_moved := total_moved p + donated margin needed,
        flip_map := dict_set (flip_map p)
           (get_name (moved_heap (heap p) state donor (donated margin needed) donor),
            get_name (moved_heap (heap p) state donor (donated margin needed) state))
           (donated margin needed)\<rparr>,
      if margin > needed then 0 else needed mod (margin - 1))"
  by (simp add: donate_def donated_def moved_heap_def Let_def)

lemma moved_heap_frame: "a \<noteq> donor \<Longrightarrow> a \<noteq> state \<Longrightarrow> moved_heap h state donor amount a = h a"
  by (simp add: moved_heap_def Let_def)

lemma moved_heap_name: "get_name (moved_heap h state donor amount a) = get_name (h a)"
  by (simp add: moved_heap_def Let_def)


lemma keys_dict_set: "fst ` set (dict_set fm k v) = insert k (fst ` set fm)"
proof (induction fm)
  case Nil
  then show ?case by simp
next
  case (Cons kv fm)
  obtain k' v' where kv: "kv = (k', v')" by (cases kv)
  show ?case
  proof (cases "k' = k")
    case True
    then show ?thesis by (simp add: kv)
  next
    case False
    then show ?thesis by (simp add: kv Cons.IH insert_commute)
  qed
qed

lemma sources_keys: "set (sources fm) = fst ` fst ` set fm"
  by (simp add: sources_def image_image)

lemma sources_dict_set: "set (sources (dict_set fm (src, dst) v)) = insert src (set (sources fm))"
  by (simp add: sources_keys keys_dict_set)

text \<open>
  An induction rule that follows the donor scan: the end of the list, a donor that is
  passed over, a donation that meets the demand and ends the scan, and a donation after
  which the scan goes on.
\<close>

lemma scan_donors_rule [consumes 1, case_names Nil Skip Stop Continue]:
  assumes "scan_donors state pride ds p n = (ds', p', n')"
    and "\<And>p n. P [] p n [] p n"
    and "\<And>d m rest p n r q k.
           get_name (heap p d) \<in> set pride \<or> m = 1 \<Longrightarrow>
           scan_donors state pride rest p n = (r, q, k) \<Longrightarrow>
           P rest p n r q k \<Longrightarrow> P ((d, m) # rest) p n ((d, m) # r) q k"
    and "\<And>d m rest p n m1 p1.
           get_name (heap p d) \<notin> set pride \<Longrightarrow> m \<noteq> 1 \<Longrightarrow>
           donate state d m p n = (m1, p1, 0) \<Longrightarrow>
           P ((d, m) # rest) p n ((d, m1) # rest) p1 0"
    and "\<And>d m rest p n m1 p1 n1 r q k.
           get_name (heap p d) \<notin> set pride \<Longrightarrow> m \<noteq> 1 \<Longrightarrow>
           donate state d m p n = (m1, p1, n1) \<Longrightarrow> n1 \<noteq> 0 \<Longrightarrow>
           scan_donors state pride rest p1 n1 = (r, q, k) \<Longrightarrow>
           P rest p1 n1 r q k \<Longrightarrow> P ((d, m) # rest) p n ((d, m1) # r) q k"
  shows "P ds p n ds' p' n'"
  using assms(1)
proof (induction ds arbitrary: p n ds' p' n')
  case Nil
  then show ?case using assms(2) by simp
next
  case (Cons dm rest)
  obtain d m where dm: "dm = (d, m)" by (cases dm)
  show ?case
  proof (cases "get_name (heap p d) \<in> set pride \<or> m = 1")
    case True
    obtain r q k where e: "scan_donors state pride rest p n = (r, q, k)"
      by (cases "scan_donors state pride rest p n") auto
    from Cons.prems True dm e have res: "ds' = (d, m) # r" "p' = q" "n' = k" by simp_all
    have "P rest p n r q k" using e by (rule Cons.IH)
    with True e have "P ((d, m) # rest) p n ((d, m) # r) q k" by (rule assms(3))
    then show ?thesis by (simp only: dm res)
  next
    case False
    then have np: "get_name (heap p d) \<notin> set pride" and m1: "m \<noteq> 1" by simp_all
    obtain m1 p1 n1 where don: "donate state d m p n = (m1, p1, n1)"
      by (cases "donate state d m p n") auto
    show ?thesis
    proof (cases "n1 = 0")
      case True
      from Cons.prems False dm don True
      have res: "ds' = (d, m1) # rest" "p' = p1" "n' = 0" by simp_all
      from don True have "donate state d m p n = (m1, p1, 0)" by simp
      with np \<open>m \<noteq> 1\<close> have "P ((d, m) # rest) p n ((d, m1) # rest) p1 0" by (rule assms(4))
      then show ?thesis by (simp only: dm res)
    next
      case nz: False
      obtain r q k where e: "scan_donors state pride rest p1 n1 = (r, q, k)"
        by (cases "scan_donors state pride rest p1 n1") auto
      from Cons.prems False dm don nz e
      have res: "ds' = (d, m1) # r" "p' = q" "n' = k" by simp_all
      have "P rest p1 n1 r q k" using e by (rule Cons.IH)
      with np \<open>m \<noteq> 1\<close> don nz e have "P ((d, m) # rest) p n ((d, m1) # r) q k"
        by (rule assms(5))
      then show ?thesis by (simp only: dm res)
    qed
  qed
qed

lemma donate_heap: "donate state d m p n = (m1, p1, n1) \<Longrightarrow>
    heap p1 = moved_heap (heap p) state d (donated m n)"
  by (auto simp: donate_eq)



lemma donate_sources: "donate state d m p n = (m1, p1, n1) \<Longrightarrow>
    set (sources (flip_map p1)) = insert (get_name (heap p d)) (set (sources (flip_map p)))"
  by (auto simp: donate_eq sources_dict_set moved_heap_name)

lemma donate_names: "donate state d m p n = (m1, p1, n1) \<Longrightarrow>
    get_name (heap p1 a) = get_name (heap p a)"
  by (auto simp: donate_eq moved_heap_name)

text \<open>
  A donor that is scanned with cached margin 1 gives nothing: the planner state goes to
  the rest of the scan as it is, and the entry stays.
\<close>

lemma scan_donors_margin_one:
  "scan_donors state pride ((donor, 1) # rest) p n =
     (case scan_donors state pride rest p n of (rest', p', n') \<Rightarrow> ((donor, 1) # rest', p', n'))"
  by simp


text \<open>
  A record other than the swing state is left as it is by a scan in which every entry for
  it is passed over, because its name is protected or its cached margin is 1.
\<close>

lemma scan_donors_frame:
  assumes "scan_donors state pride ds p n = (ds', p', n')"
  shows "a \<noteq> state \<longrightarrow> (\<forall>m. (a, m) \<in> set ds \<longrightarrow> get_name (heap p a) \<in> set pride \<or> m = 1)
           \<longrightarrow> heap p' a = heap p a"
  using assms
proof (induction rule: scan_donors_rule)
  case (Nil p n)
  show ?case by simp
next
  case (Skip d m rest p n r q k)
  then show ?case by auto
next
  case (Stop d m rest p n m1 p1)
  show ?case
  proof (intro impI)
    assume a: "a \<noteq> state"
      and h: "\<forall>m'. (a, m') \<in> set ((d, m) # rest) \<longrightarrow> get_name (heap p a) \<in> set pride \<or> m' = 1"
    from h Stop(1,2) have "a \<noteq> d" by auto
    with a show "heap p1 a = heap p a"
      by (simp add: donate_heap[OF Stop(3)] moved_heap_frame)
  qed
next
  case (Continue d m rest p n m1 p1 n1 r q k)
  show ?case
  proof (intro impI)
    assume a: "a \<noteq> state"
      and h: "\<forall>m'. (a, m') \<in> set ((d, m) # rest) \<longrightarrow> get_name (heap p a) \<in> set pride \<or> m' = 1"
    from h Continue(1,2) have "a \<noteq> d" by auto
    with a have e: "heap p1 a = heap p a"
      by (simp add: donate_heap[OF Continue(3)] moved_heap_frame)
    from h have "\<forall>m'. (a, m') \<in> set rest \<longrightarrow> get_name (heap p1 a) \<in> set pride \<or> m' = 1"
      by (simp add: e)
    with Continue.IH a have "heap q a = heap p1 a" by blast
    with e show "heap q a = heap p a" by simp
  qed
qed

text \<open>
  Every source the scan adds to the mapping is the name of a donor that is neither
  protected nor cached at margin 1.
\<close>

lemma scan_donors_sources:
  assumes "scan_donors state pride ds p n = (ds', p', n')"
  shows "\<forall>src\<in>set (sources (flip_map p')).
           src \<in> set (sources (flip_map p))
           \<or> (\<exists>dm\<in>set ds. src = get_name (heap p (fst dm)) \<and> src \<notin> set pride \<and> snd dm \<noteq> 1)"
  using assms
proof (induction rule: scan_donors_rule)
  case (Nil p n)
  show ?case by simp
next
  case (Skip d m rest p n r q k)
  show ?case
  proof
    fix src assume "src \<in> set (sources (flip_map q))"
    with Skip.IH have "src \<in> set (sources (flip_map p))
       \<or> (\<exists>dm\<in>set rest. src = get_name (heap p (fst dm)) \<and> src \<notin> set pride \<and> snd dm \<noteq> 1)"
      by blast
    then show "src \<in> set (sources (flip_map p))
       \<or> (\<exists>dm\<in>set ((d, m) # rest). src = get_name (heap p (fst dm)) \<and> src \<notin> set pride \<and> snd dm \<noteq> 1)"
      by auto
  qed
next
  case (Stop d m rest p n m1 p1)
  show ?case
  proof
    fix src assume "src \<in> set (sources (flip_map p1))"
    then have "src = get_name (heap p d) \<or> src \<in> set (sources (flip_map p))"
      by (simp add: donate_sources[OF Stop(3)])
    then show "src \<in> set (sources (flip_map p))
       \<or> (\<exists>dm\<in>set ((d, m) # rest). src = get_name (heap p (fst dm)) \<and> src \<notin> set pride \<and> snd dm \<noteq> 1)"
      using Stop(1,2) by auto
  qed
next
  case (Continue d m rest p n m1 p1 n1 r q k)
  have nm: "\<And>a. get_name (heap p1 a) = get_name (heap p a)"
    using Continue(3) by (rule donate_names)
  show ?case
  proof
    fix src assume "src \<in> set (sources (flip_map q))"
    with Continue.IH have "src \<in> set (sources (flip_map p1))
       \<or> (\<exists>dm\<in>set rest. src = get_name (heap p (fst dm)) \<and> src \<notin> set pride \<and> snd dm \<noteq> 1)"
      by (simp only: nm)
    then have "src = get_name (heap p d) \<or> src \<in> set (sources (flip_map p))
       \<or> (\<exists>dm\<in>set rest. src = get_name (heap p (fst dm)) \<and> src \<notin> set pride \<and> snd dm \<noteq> 1)"
      by (simp add: donate_sources[OF Continue(3)])
    then show "src \<in> set (sources (flip_map p))
       \<or> (\<exists>dm\<in>set ((d, m) # rest). src = get_name (heap p (fst dm)) \<and> src \<notin> set pride \<and> snd dm \<noteq> 1)"
      using Continue(1,2) by auto
  qed
qed












lemma relocate_loop_pride_frame:
  "relocate_loop pride swing ds p = (ok, ds', p') \<Longrightarrow> a \<notin> set swing \<Longrightarrow>
     get_name (heap p a) \<in> set pride \<Longrightarrow> heap p' a = heap p a"
proof (induction swing arbitrary: ds p)
  case Nil
  then show ?case by simp
next
  case (Cons s swing)
  obtain ds1 p1 n1 where sc: "scan_donors s pride ds p (get_margin (heap p s) + 1) = (ds1, p1, n1)"
    by (cases "scan_donors s pride ds p (get_margin (heap p s) + 1)") auto
  from Cons.prems(2) have as: "a \<noteq> s" and asw: "a \<notin> set swing" by simp_all
  have fr: "heap p1 a = heap p a"
    using scan_donors_frame[OF sc, of a] as Cons.prems(3) by blast
  show ?case
  proof (cases "n1 = 0")
    case False
    with Cons.prems(1) sc have "p' = p1" by simp
    with fr show ?thesis by simp
  next
    case True
    with Cons.prems(1) sc
    have "relocate_loop pride swing ds1 (p1\<lparr>ec_gain := ec_gain p1 + get_ecvotes (heap p1 s)\<rparr>)
        = (ok, ds', p')" by simp
    from Cons.IH[OF this asw] fr Cons.prems(3) show ?thesis by simp
  qed
qed

lemma relocate_loop_pride_sources:
  "relocate_loop pride swing ds p = (ok, ds', p') \<Longrightarrow>
     \<forall>src\<in>set (sources (flip_map p)). src \<notin> set pride \<Longrightarrow>
     \<forall>src\<in>set (sources (flip_map p')). src \<notin> set pride"
proof (induction swing arbitrary: ds p)
  case Nil
  then show ?case by simp
next
  case (Cons s swing)
  obtain ds1 p1 n1 where sc: "scan_donors s pride ds p (get_margin (heap p s) + 1) = (ds1, p1, n1)"
    by (cases "scan_donors s pride ds p (get_margin (heap p s) + 1)") auto
  have s1: "\<forall>src\<in>set (sources (flip_map p1)). src \<notin> set pride"
    using scan_donors_sources[OF sc] Cons.prems(2) by blast
  show ?case
  proof (cases "n1 = 0")
    case False
    with Cons.prems(1) sc have "p' = p1" by simp
    with s1 show ?thesis by simp
  next
    case True
    with Cons.prems(1) sc
    have "relocate_loop pride swing ds1 (p1\<lparr>ec_gain := ec_gain p1 + get_ecvotes (heap p1 s)\<rparr>)
        = (ok, ds', p')" by simp
    from Cons.IH[OF this] s1 show ?thesis by simp
  qed
qed




text \<open>
  For an object of the election list, membership in \<^verbatim>\<open>winners_states\<close> is the same
  whether \<^verbatim>\<open>in\<close> compares by identity or by fields: it holds exactly when the state's
  local winner is the overall winner.
\<close>

lemma state_in_winner_states:
  assumes "a \<in> set election"
  shows "state_in h a (winner_states h election)
      \<longleftrightarrow> get_winner (h a) = fst (election_winner (map h election))"
proof
  assume "state_in h a (winner_states h election)"
  then obtain b where b: "b \<in> set (winner_states h election)" "b = a \<or> h b = h a"
    by (auto simp: state_in_def list_ex_iff)
  from b(1) have "get_winner (h b) = fst (election_winner (map h election))"
    by (simp add: winner_states_def Let_def)
  with b(2) show "get_winner (h a) = fst (election_winner (map h election))" by auto
next
  assume "get_winner (h a) = fst (election_winner (map h election))"
  with assms have "a \<in> set (winner_states h election)"
    by (simp add: winner_states_def Let_def)
  then show "state_in h a (winner_states h election)"
    by (auto simp: state_in_def list_ex_iff)
qed

lemma losing_states_filter:
  "filter (\<lambda>state. \<not> state_in h state (winner_states h election)) election
     = filter (\<lambda>state. get_winner (h state) \<noteq> fst (election_winner (map h election))) election"
  by (rule filter_cong) (simp_all add: state_in_winner_states)

lemma zip_map_self: "zip xs (map f xs) = map (\<lambda>x. (x, f x)) xs"
  by (induction xs) simp_all

lemma relocate_run_loop:
  "relocate_run h election swing pride
     = relocate_loop pride swing (donor_table h election)
         \<lparr>heap = h, total_moved = 0, flip_map = [], ec_gain = 0\<rparr>"
  by (simp add: relocate_run_def Let_def losing_states_filter zip_map_self donor_table_def)









lemma relocate_loop_prefix:
  "relocate_loop pride pre ds p = (True, ds1, p1) \<Longrightarrow>
     relocate_loop pride (pre @ rest) ds p = relocate_loop pride rest ds1 p1"
proof (induction pre arbitrary: ds p)
  case Nil
  then show ?case by simp
next
  case (Cons s pre)
  obtain dsa pa na where sc: "scan_donors s pride ds p (get_margin (heap p s) + 1) = (dsa, pa, na)"
    by (cases "scan_donors s pride ds p (get_margin (heap p s) + 1)") auto
  show ?case
  proof (cases "na = 0")
    case False
    with Cons.prems sc show ?thesis by simp
  next
    case True
    with Cons.prems sc
    have "relocate_loop pride pre dsa (pa\<lparr>ec_gain := ec_gain pa + get_ecvotes (heap pa s)\<rparr>)
        = (True, ds1, p1)" by simp
    from Cons.IH[OF this] sc True show ?thesis by simp
  qed
qed

lemma relocate_run_prefix:
  assumes "relocate_run h election pre pride = (True, ds1, p1)"
    and "scan_donors s pride ds1 p1 (get_margin (heap p1 s) + 1) = (ds2, p2, n2)"
  shows "relocate_run h election (pre @ s # post) pride
      = (if n2 \<noteq> 0 then (False, ds2, p2)
         else relocate_loop pride post ds2 (p2\<lparr>ec_gain := ec_gain p2 + get_ecvotes (heap p2 s)\<rparr>))"
proof -
  from assms(1) have "relocate_loop pride pre (donor_table h election)
      \<lparr>heap = h, total_moved = 0, flip_map = [], ec_gain = 0\<rparr> = (True, ds1, p1)"
    by (simp only: relocate_run_loop)
  then have "relocate_loop pride (pre @ s # post) (donor_table h election)
      \<lparr>heap = h, total_moved = 0, flip_map = [], ec_gain = 0\<rparr>
      = relocate_loop pride (s # post) ds1 p1"
    by (rule relocate_loop_prefix)
  then show ?thesis by (simp add: relocate_run_loop assms(2))
qed

section \<open>Claims about the planner\<close>

lemmas planner_eval = relocate_voters_def relocate_run_def winner_states_def state_in_def
  election_winner_def donate_def get_margin_def get_winner_def get_ecvotes_def get_name_def
  add_losing_candidate_voters_def subtract_winning_candidate_voters_def default_pride_def
  received_def blank_record_def Let_def

text \<open>
  C1 (the code departs from the claim): in the branch for a donor whose slack does not
  cover the demand, the demand becomes \<open>voters_needed mod moved\<close> instead of
  \<open>voters_needed - moved\<close>. NY (won by the overall winner, margin 8) needs 9 voters;
  OH (margin 4) gives 3, and \<open>9 mod 3 = 0\<close> ends the scan: the plan is returned as
  successful with 3 voters received by NY, not 9, and the donation of 3 took the demand
  from 9 to 0.
\<close>

theorem relocate_voters_modulo_shortfall:
  "snd (relocate_voters shortfall_heap [0, 1, 2] [0] default_pride)
     = Some (3, [((''OH'', ''NY''), 3)], 10)
   \<and> received [((''OH'', ''NY''), 3)] ''NY'' = 3
   \<and> get_margin (shortfall_heap 0) + 1 = 9
   \<and> get_margin (shortfall_heap 1) = 4
   \<and> donated 4 9 = 3
   \<and> snd (snd (donate 0 1 4
         \<lparr>heap = shortfall_heap, total_moved = 0, flip_map = [], ec_gain = 0\<rparr> 9)) = 0"
  by (simp add: shortfall_heap_def planner_eval donated_def)

text \<open>
  C7, as the code behaves: a state whose name is in \<open>states_with_pride\<close> never appears
  as the source of a transfer of the returned mapping, and its record is left as it was
  unless the state is itself one of the swing states, which receive voters.
\<close>

theorem relocate_voters_pride_protected:
  assumes "relocate_voters h election swing pride = (h', outcome)"
  shows "(\<forall>total fm gain. outcome = Some (total, fm, gain) \<longrightarrow>
            (\<forall>src\<in>set (sources fm). src \<notin> set pride))
       \<and> (\<forall>a. get_name (h a) \<in> set pride \<and> a \<notin> set swing \<longrightarrow> h' a = h a)"
proof -
  obtain ok ds p where run: "relocate_run h election swing pride = (ok, ds, p)"
    by (cases "relocate_run h election swing pride") auto
  then have loop: "relocate_loop pride swing (donor_table h election)
         \<lparr>heap = h, total_moved = 0, flip_map = [], ec_gain = 0\<rparr> = (ok, ds, p)"
    by (simp only: relocate_run_loop)
  from assms run have h': "h' = heap p"
    and out: "outcome = (if ok then Some (total_moved p, flip_map p, ec_gain p) else None)"
    by (simp_all add: relocate_voters_def)
  have src: "\<forall>src\<in>set (sources (flip_map p)). src \<notin> set pride"
    using loop by (rule relocate_loop_pride_sources) (simp add: sources_def)
  have fr: "h' a = h a" if "get_name (h a) \<in> set pride" "a \<notin> set swing" for a
    using relocate_loop_pride_frame[OF loop that(2)] that(1) by (simp add: h')
  show ?thesis
  proof (intro conjI allI impI)
    fix total fm gain
    assume "outcome = Some (total, fm, gain)"
    with out have "fm = flip_map p" by (simp split: if_splits)
    with src show "\<forall>src\<in>set (sources fm). src \<notin> set pride" by simp
  next
    fix a assume "get_name (h a) \<in> set pride \<and> a \<notin> set swing"
    then show "h' a = h a" using fr by blast
  qed
qed

theorem relocate_voters_pride_protected_witness:
  "get_name (protected_heap 1) \<in> set default_pride \<and> (1::nat) \<notin> set [0]
   \<and> snd (relocate_voters protected_heap [0, 1, 2] [0] default_pride)
        = Some (9, [((''FL'', ''NY''), 9)], 10)
   \<and> ''FL'' \<notin> set default_pride
   \<and> fst (relocate_voters protected_heap [0, 1, 2] [0] default_pride) 1 = protected_heap 1"
proof -
  have e: "relocate_voters protected_heap [0, 1, 2] [0] default_pride
      = (fst (relocate_voters protected_heap [0, 1, 2] [0] default_pride),
         snd (relocate_voters protected_heap [0, 1, 2] [0] default_pride))" by simp
  have v: "snd (relocate_voters protected_heap [0, 1, 2] [0] default_pride)
        = Some (9, [((''FL'', ''NY''), 9)], 10)"
    by (simp add: protected_heap_def planner_eval)
  have n: "get_name (protected_heap 1) \<in> set default_pride"
    by (simp add: protected_heap_def planner_eval)
  show ?thesis using relocate_voters_pride_protected[OF e] v n
    by (simp add: sources_def default_pride_def)
qed

text \<open>
  C7, as stated (the vote totals of a protected state are never mutated), does not hold:
  CA is protected and held by the overall winner; as the swing state it receives 6 voters
  from NV and its record changes.
\<close>

theorem relocate_voters_pride_recipient_mutated:
  "get_name (pride_heap 0) \<in> set default_pride
   \<and> snd (relocate_voters pride_heap [0, 1] [0] default_pride)
        = Some (6, [((''NV'', ''CA''), 6)], 3)
   \<and> pride_heap 0 = \<lparr>name = ''CA'', dem = 10, rep = 5, ec = 3\<rparr>
   \<and> fst (relocate_voters pride_heap [0, 1] [0] default_pride) 0
        = \<lparr>name = ''CA'', dem = 10, rep = 11, ec = 3\<rparr>"
  by (simp add: pride_heap_def planner_eval)




end
